theory Spec2Isabelle
  imports Main "HOL-Library.Word" "HOL-Library.Sublist" "HOL-Library.Code_Target_Nat"
begin

section \<open>ReadCoherentHaplotypeBuilder: data model\<close>

text \<open>
  The embedding follows \<^verbatim>\<open>src/Algorithm/ReadCoherentHaplotypeBuilder.cpp\<close>.
  A \<^verbatim>\<open>std::string\<close> is a \<open>string\<close>, the \<^verbatim>\<open>std::list<std::string>\<close> of haplotypes
  and the \<^verbatim>\<open>std::vector\<close>s are HOL lists, \<^verbatim>\<open>size_t\<close> is a 64-bit unsigned integer
  (a \<open>nat\<close>, with the wrap-around written out where the code subtracts), and a C++
  \<^verbatim>\<open>int\<close> (32 bits, two's complement) is an \<open>int\<close> between \<open>INT_MIN\<close> and \<open>INT_MAX\<close>:
  the aligner is taken to return such values, and the one place where the code computes
  with them, the jump between two start coordinates, checks that the difference is such
  a value again. The sum \<^verbatim>\<open>j + k\<close> of the mismatch scan is taken without a wrap-around:
  \<open>j\<close> and \<open>k\<close> are positions in two strings, and the length of a \<^verbatim>\<open>std::string\<close> is
  below \<open>2 ^ 63\<close>. What the C++ does when it cannot go on (an exception, a failed
  \<^verbatim>\<open>assert\<close>, a read past the end of a vector, an overflow of \<^verbatim>\<open>int\<close> arithmetic) is a
  value of the type \<open>error\<close>. Output written with \<^verbatim>\<open>printf\<close> and the
  \<^verbatim>\<open>MultipleAlignment\<close> object, which is filled and never read, are left out.
\<close>

datatype EdgeDir = ED_SENSE | ED_ANTISENSE

datatype HaplotypeBuilderReturnCode = HBRC_OK

datatype error =
    OutOfRange        \<comment> \<open>\<^verbatim>\<open>std::out_of_range\<close> thrown by \<^verbatim>\<open>std::string::substr\<close>\<close>
  | AssertionFailed   \<comment> \<open>a failed \<^verbatim>\<open>assert\<close>\<close>
  | VectorOverrun     \<comment> \<open>\<^verbatim>\<open>operator[]\<close> of a \<^verbatim>\<open>std::vector\<close> past its end (undefined behaviour)\<close>
  | SignedOverflow    \<comment> \<open>overflow of \<^verbatim>\<open>int\<close> arithmetic (undefined behaviour)\<close>

text \<open>Pointers to the index structures are addresses; \<open>NULL\<close> is address 0.\<close>

type_synonym ptr = nat

definition NULL :: ptr where
  "NULL = 0"

text \<open>\<^verbatim>\<open>AlphaCount64\<close>: one 64-bit count for each symbol, read with \<^verbatim>\<open>get(b)\<close>.\<close>

type_synonym AlphaCount64 = "char \<Rightarrow> nat"

text \<open>
  \<^verbatim>\<open>SequenceOverlap\<close>: of the value returned by \<^verbatim>\<open>Overlapper::extendMatch\<close> the code
  reads \<^verbatim>\<open>edit_distance\<close> and \<^verbatim>\<open>match[0].start\<close>.
\<close>

record SequenceOverlap =
  edit_distance :: int
  match0_start :: int

text \<open>
  The functions of other modules that the builder calls, whose code is not part of these
  sources, are parameters of the model: the index query
  \<^verbatim>\<open>BWTAlgorithms::calculateDeBruijnExtensionsSingleIndex\<close>, the read retrieval
  \<^verbatim>\<open>HapgenUtil::extractHaplotypeReads\<close> (its result is the list of the sequences it
  appends to the output vector, as strings), the aligner \<^verbatim>\<open>Overlapper::extendMatch\<close>
  and \<^verbatim>\<open>reverseComplement\<close>.
\<close>

record collab =
  calculateDeBruijnExtensionsSingleIndex :: "string \<Rightarrow> ptr \<Rightarrow> EdgeDir \<Rightarrow> AlphaCount64"
  extractHaplotypeReads :: "string list \<Rightarrow> ptr \<Rightarrow> ptr \<Rightarrow> ptr \<Rightarrow> nat \<Rightarrow> bool \<Rightarrow> nat \<Rightarrow> string list"
  extendMatch :: "string \<Rightarrow> string \<Rightarrow> nat \<Rightarrow> nat \<Rightarrow> nat \<Rightarrow> SequenceOverlap"
  reverseComplement :: "string \<Rightarrow> string"

text \<open>The members of \<^verbatim>\<open>ReadCoherentHaplotypeBuilder\<close>.\<close>

record builder =
  m_pBWT :: ptr
  m_pIntervalCache :: ptr
  m_pSSA :: ptr
  m_kmer :: nat
  m_kmerThreshold :: nat
  m_maxEditDistance :: nat
  m_haplotypes :: "string list"
  m_reads :: "string list"

text \<open>
  Modelled from the spec: the alphabet \<^verbatim>\<open>DNA_ALPHABET\<close>, with its \<^verbatim>\<open>size\<close> and its
  \<^verbatim>\<open>getBase\<close> (the header that declares them is not among the sources). The spec
  fixes a small alphabet of four symbols and uses the symbols and the order A, C, G, T
  in its example of an extension tie-break. \<^verbatim>\<open>getBase\<close> is only called with an index
  below the size.
\<close>

definition DNA_ALPHABET :: string where
  "DNA_ALPHABET = ''ACGT''"

definition DNA_ALPHABET_size :: nat where
  "DNA_ALPHABET_size = 4"

definition getBase :: "nat \<Rightarrow> char" where
  "getBase i = DNA_ALPHABET ! i"

section \<open>Machine arithmetic and strings\<close>

definition SIZE_MAX :: nat where
  "SIZE_MAX = 2 ^ 64 - 1"

text \<open>Subtraction of two \<^verbatim>\<open>size_t\<close> values (both below \<open>2 ^ 64\<close>): it wraps around.\<close>

definition size_t_sub :: "nat \<Rightarrow> nat \<Rightarrow> nat" where
  "size_t_sub a b = (a + 2 ^ 64 - b) mod 2 ^ 64"

text \<open>
  A C++ \<^verbatim>\<open>int\<close> has 32 bits. The difference of two \<^verbatim>\<open>int\<close>s that is not an \<^verbatim>\<open>int\<close>
  again is an overflow, which is undefined behaviour.
\<close>

definition INT_MAX :: int where
  "INT_MAX = 2147483647"

definition INT_MIN :: int where
  "INT_MIN = - 2147483648"

definition int_sub :: "int \<Rightarrow> int \<Rightarrow> error + int" where
  "int_sub a b =
     (if INT_MIN \<le> a - b \<and> a - b \<le> INT_MAX then Inr (a - b) else Inl SignedOverflow)"

text \<open>The cast \<^verbatim>\<open>(int)\<close> of a \<^verbatim>\<open>size_t\<close>: the low 32 bits, read as two's complement.\<close>

definition int_of_size_t :: "nat \<Rightarrow> int" where
  "int_of_size_t n = sint (word_of_nat n :: 32 word)"

text \<open>
  \<^verbatim>\<open>s.substr(pos, n)\<close> throws when \<open>pos\<close> is past the end of \<open>s\<close>, and otherwise
  returns at most \<open>n\<close> characters from \<open>pos\<close> on; \<^verbatim>\<open>s.substr(pos)\<close> returns all of them.
\<close>

definition substr :: "string \<Rightarrow> nat \<Rightarrow> nat \<Rightarrow> error + string" where
  "substr s pos n = (if length s < pos then Inl OutOfRange else Inr (take n (drop pos s)))"

definition substr_from :: "string \<Rightarrow> nat \<Rightarrow> error + string" where
  "substr_from s pos = (if length s < pos then Inl OutOfRange else Inr (drop pos s))"

section \<open>Configuration\<close>

text \<open>
  The constructor initialises \<^verbatim>\<open>m_pBWT\<close>, \<^verbatim>\<open>m_kmer\<close> and \<^verbatim>\<open>m_maxEditDistance\<close>; the
  list and the vector start empty. The members it leaves uninitialised,
  \<^verbatim>\<open>m_pIntervalCache\<close>, \<^verbatim>\<open>m_pSSA\<close> and \<^verbatim>\<open>m_kmerThreshold\<close>, hold whatever was there:
  their first values are parameters.
\<close>

definition ReadCoherentHaplotypeBuilder :: "ptr \<Rightarrow> ptr \<Rightarrow> nat \<Rightarrow> builder" where
  "ReadCoherentHaplotypeBuilder cache0 ssa0 threshold0 =
     \<lparr> m_pBWT = NULL, m_pIntervalCache = cache0, m_pSSA = ssa0, m_kmer = 0,
       m_kmerThreshold = threshold0, m_maxEditDistance = 1, m_haplotypes = [], m_reads = [] \<rparr>"

definition setKmer :: "nat \<Rightarrow> builder \<Rightarrow> builder" where
  "setKmer k b = b\<lparr> m_kmer := k, m_kmerThreshold := 1 \<rparr>"


definition setIndex :: "ptr \<Rightarrow> ptr \<Rightarrow> ptr \<Rightarrow> builder \<Rightarrow> builder" where
  "setIndex pBWT pCache pSSA b = b\<lparr> m_pBWT := pBWT, m_pIntervalCache := pCache, m_pSSA := pSSA \<rparr>"

section \<open>The extension step\<close>

text \<open>Lines 91 to 95: the anchor k-mer of a haplotype.\<close>

definition query_kmer :: "builder \<Rightarrow> EdgeDir \<Rightarrow> string \<Rightarrow> error + string" where
  "query_kmer b direction h =
     (if direction = ED_SENSE then substr_from h (size_t_sub (length h) (m_kmer b))
      else substr h 0 (m_kmer b))"

text \<open>Lines 99 to 106: the symbols whose count reaches the threshold.\<close>

function extensionBases_loop :: "builder \<Rightarrow> AlphaCount64 \<Rightarrow> nat \<Rightarrow> string \<Rightarrow> string" where
  "extensionBases_loop b extensionCounts i extensionBases =
     (if i < DNA_ALPHABET_size then
        (let c = getBase i;
             count = extensionCounts c
         in extensionBases_loop b extensionCounts (i + 1)
              (if m_kmerThreshold b \<le> count then extensionBases @ [c] else extensionBases))
      else extensionBases)"
  by pat_completeness auto
termination
  by (relation "measure (\<lambda>(b, counts, i, acc). DNA_ALPHABET_size - i)") auto

text \<open>Lines 91 to 106 for one haplotype: the query, then the valid symbols.\<close>

definition valid_extensions :: "collab \<Rightarrow> builder \<Rightarrow> EdgeDir \<Rightarrow> string \<Rightarrow> error + string" where
  "valid_extensions env b direction h =
     (case query_kmer b direction h of
        Inl e \<Rightarrow> Inl e
      | Inr q \<Rightarrow>
          Inr (extensionBases_loop b
                 (calculateDeBruijnExtensionsSingleIndex env q (m_pBWT b) direction) 0 []))"

text \<open>\<^verbatim>\<open>append(1, c)\<close> in the sense direction, \<^verbatim>\<open>insert(0, 1, c)\<close> in the other.\<close>

definition extend_dir :: "EdgeDir \<Rightarrow> string \<Rightarrow> char \<Rightarrow> string" where
  "extend_dir direction h c = (if direction = ED_SENSE then h @ [c] else c # h)"

text \<open>Lines 119 to 127: the branches of one haplotype, pushed on the incoming list.\<close>

function branch_loop :: "EdgeDir \<Rightarrow> string \<Rightarrow> string \<Rightarrow> nat \<Rightarrow> string list \<Rightarrow> string list" where
  "branch_loop direction h extensionBases i incoming_haplotypes =
     (if i < length extensionBases then
        branch_loop direction h extensionBases (i + 1)
          (incoming_haplotypes @ [extend_dir direction h (extensionBases ! i)])
      else incoming_haplotypes)"
  by pat_completeness auto
termination
  by (relation "measure (\<lambda>(d, h, bases, i, inc). length bases - i)") auto

text \<open>
  Lines 88 to 136: the loop over \<^verbatim>\<open>m_haplotypes\<close>. The iterator is the position \<open>i\<close>;
  the list is updated in place and the branches go to \<open>incoming_haplotypes\<close>.
\<close>

function extend_loop ::
  "collab \<Rightarrow> builder \<Rightarrow> EdgeDir \<Rightarrow> nat \<Rightarrow> string list \<Rightarrow> string list \<Rightarrow> error + (string list \<times> string list)"
where
  "extend_loop env b direction i haplotypes incoming_haplotypes =
     (if i < length haplotypes then
        (case valid_extensions env b direction (haplotypes ! i) of
           Inl e \<Rightarrow> Inl e
         | Inr extensionBases \<Rightarrow>
             if length extensionBases = 1 then
               extend_loop env b direction (i + 1)
                 (haplotypes[i := extend_dir direction (haplotypes ! i) (extensionBases ! 0)])
                 incoming_haplotypes
             else if 1 < length extensionBases then
               extend_loop env b direction (i + 1)
                 (haplotypes[i := extend_dir direction (haplotypes ! i) (extensionBases ! 0)])
                 (branch_loop direction (haplotypes ! i) extensionBases 1 incoming_haplotypes)
             else extend_loop env b direction (i + 1) haplotypes incoming_haplotypes)
      else Inr (haplotypes, incoming_haplotypes))"
  by pat_completeness auto
termination
  by (relation "measure (\<lambda>(env, b, d, i, hs, inc). length hs - i)") auto

text \<open>\<^verbatim>\<open>extendOnce\<close>: the loop, then the splice of the incoming list at the end.\<close>

definition extendOnce :: "collab \<Rightarrow> builder \<Rightarrow> EdgeDir \<Rightarrow> error + builder" where
  "extendOnce env b direction =
     (case extend_loop env b direction 0 (m_haplotypes b) [] of
        Inl e \<Rightarrow> Inl e
      | Inr (haplotypes, incoming_haplotypes) \<Rightarrow>
          Inr (b\<lparr> m_haplotypes := haplotypes @ incoming_haplotypes \<rparr>))"

section \<open>The cull step\<close>

text \<open>
  Lines 160 to 181, \<^verbatim>\<open>getReads\<close>: the reads of the haplotypes in both orientations
  are appended to \<^verbatim>\<open>m_reads\<close>, the reverse ones as their reverse complement.
\<close>

definition getReads :: "collab \<Rightarrow> builder \<Rightarrow> builder" where
  "getReads env b =
     (let haplotype_vector = m_haplotypes b;
          variant_reads = extractHaplotypeReads env haplotype_vector (m_pBWT b)
             (m_pIntervalCache b) (m_pSSA b) (m_kmer b) False 100000;
          variant_rc_reads = extractHaplotypeReads env haplotype_vector (m_pBWT b)
             (m_pIntervalCache b) (m_pSSA b) (m_kmer b) True 100000
      in b\<lparr> m_reads := m_reads b @ variant_reads @ map (reverseComplement env) variant_rc_reads \<rparr>)"

text \<open>Lines 202 to 204: the mismatches of the read placed at offset \<open>j\<close>.\<close>

function count_mismatches :: "string \<Rightarrow> string \<Rightarrow> nat \<Rightarrow> nat \<Rightarrow> nat \<Rightarrow> nat" where
  "count_mismatches haplotype read j k mismatches =
     (if k < length read then
        count_mismatches haplotype read j (k + 1)
          (mismatches + (if j + k < length haplotype \<and> haplotype ! (j + k) = read ! k then 0 else 1))
      else mismatches)"
  by pat_completeness auto
termination
  by (relation "measure (\<lambda>(h, r, j, k, m). length r - k)") auto

text \<open>Lines 198 to 216: the scan over every start position of the haplotype.\<close>

function best_starts_loop :: "string \<Rightarrow> string \<Rightarrow> nat \<Rightarrow> nat \<Rightarrow> nat list \<Rightarrow> nat \<times> nat list" where
  "best_starts_loop haplotype read j best_mismatches best_starts =
     (if j < length haplotype then
        (let mismatches = count_mismatches haplotype read j 0 0 in
         if mismatches < best_mismatches then
           best_starts_loop haplotype read (j + 1) mismatches [j]
         else if mismatches = best_mismatches then
           best_starts_loop haplotype read (j + 1) best_mismatches (best_starts @ [j])
         else best_starts_loop haplotype read (j + 1) best_mismatches best_starts)
      else (best_mismatches, best_starts))"
  by pat_completeness auto
termination
  by (relation "measure (\<lambda>(h, r, j, bm, bs). length h - j)") auto

definition find_best_starts :: "string \<Rightarrow> string \<Rightarrow> nat list" where
  "find_best_starts haplotype read = snd (best_starts_loop haplotype read 0 SIZE_MAX [])"

text \<open>Lines 218 to 230: each best start is aligned, and kept when the edit distance allows.\<close>

function overlap_loop ::
  "collab \<Rightarrow> builder \<Rightarrow> string \<Rightarrow> string \<Rightarrow> nat list \<Rightarrow> nat \<Rightarrow> int list \<Rightarrow> int list"
where
  "overlap_loop env b haplotype read best_starts j start_vector =
     (if j < length best_starts then
        (let overlap = extendMatch env haplotype read (best_starts ! j) 0 2 in
         if edit_distance overlap \<le> int_of_size_t (m_maxEditDistance b) then
           overlap_loop env b haplotype read best_starts (j + 1)
             (start_vector @ [match0_start overlap])
         else overlap_loop env b haplotype read best_starts (j + 1) start_vector)
      else start_vector)"
  by pat_completeness auto
termination
  by (relation "measure (\<lambda>(env, b, h, r, bs, j, sv). length bs - j)") auto

text \<open>Lines 192 to 231: the loop over \<^verbatim>\<open>m_reads\<close>.\<close>

function reads_loop :: "collab \<Rightarrow> builder \<Rightarrow> string \<Rightarrow> nat \<Rightarrow> int list \<Rightarrow> int list" where
  "reads_loop env b haplotype i start_vector =
     (if i < length (m_reads b) then
        (let read = m_reads b ! i;
             best_starts = find_best_starts haplotype read
         in reads_loop env b haplotype (i + 1)
              (overlap_loop env b haplotype read best_starts 0 start_vector))
      else start_vector)"
  by pat_completeness auto
termination
  by (relation "measure (\<lambda>(env, b, h, i, sv). length (m_reads b) - i)") auto

text \<open>
  Lines 235 to 242: the largest jump between consecutive start positions. The bound of
  the loop is the \<^verbatim>\<open>size_t\<close> value \<^verbatim>\<open>start_vector.size() - 1\<close>; an index at or past
  the size of the vector reads outside it; the jump is a difference of two \<^verbatim>\<open>int\<close>s.
\<close>

function max_jump_loop :: "int list \<Rightarrow> nat \<Rightarrow> int \<Rightarrow> error + int" where
  "max_jump_loop start_vector i max_jump =
     (if i < size_t_sub (length start_vector) 1 then
        (if i + 1 < length start_vector then
           (case int_sub (start_vector ! (i + 1)) (start_vector ! i) of
              Inl e \<Rightarrow> Inl e
            | Inr jump \<Rightarrow>
                max_jump_loop start_vector (i + 1) (if max_jump < jump then jump else max_jump))
         else Inl VectorOverrun)
      else Inr max_jump)"
  by pat_completeness auto
termination
  by (relation "measure (\<lambda>(sv, i, m). length sv - i)") auto

definition calculateHaplotypeIncoherency :: "collab \<Rightarrow> builder \<Rightarrow> string \<Rightarrow> error + int" where
  "calculateHaplotypeIncoherency env b haplotype =
     (let start_vector = reads_loop env b haplotype 0 [] in
      max_jump_loop (sort start_vector) 0 0)"

text \<open>Lines 147 to 155: a haplotype whose score is above 20 is erased from the list.\<close>

fun cull_loop :: "collab \<Rightarrow> builder \<Rightarrow> string list \<Rightarrow> error + string list" where
  "cull_loop env b [] = Inr []"
| "cull_loop env b (h # rest) =
     (case calculateHaplotypeIncoherency env b h of
        Inl e \<Rightarrow> Inl e
      | Inr max_jump \<Rightarrow>
          (case cull_loop env b rest of
             Inl e \<Rightarrow> Inl e
           | Inr rest' \<Rightarrow> if 20 < max_jump then Inr rest' else Inr (h # rest')))"

definition cullHaplotypes :: "collab \<Rightarrow> builder \<Rightarrow> error + builder" where
  "cullHaplotypes env b =
     (let b1 = getReads env (b\<lparr> m_reads := [] \<rparr>) in
      case cull_loop env b1 (m_haplotypes b1) of
        Inl e \<Rightarrow> Inl e
      | Inr haplotypes \<Rightarrow> Inr (b1\<lparr> m_haplotypes := haplotypes \<rparr>))"

section \<open>The rounds\<close>

definition MAX_ROUNDS :: int where
  "MAX_ROUNDS = 100"

text \<open>
  Lines 64 to 73. The test \<^verbatim>\<open>round++ < MAX_ROUNDS\<close> compares the old value of
  \<open>round\<close> and the body sees the incremented one.
\<close>

function run_loop :: "collab \<Rightarrow> builder \<Rightarrow> int \<Rightarrow> error + builder" where
  "run_loop env b round =
     (if round < MAX_ROUNDS then
        (let round' = round + 1 in
         case extendOnce env b ED_SENSE of
           Inl e \<Rightarrow> Inl e
         | Inr b1 \<Rightarrow>
             (case extendOnce env b1 ED_ANTISENSE of
                Inl e \<Rightarrow> Inl e
              | Inr b2 \<Rightarrow>
                  if round' mod 10 = 0 then
                    (case cullHaplotypes env b2 of
                       Inl e \<Rightarrow> Inl e
                     | Inr b3 \<Rightarrow> run_loop env b3 round')
                  else run_loop env b2 round'))
      else Inr b)"
  by pat_completeness auto
termination
  by (relation "measure (\<lambda>(env, b, round). nat (MAX_ROUNDS - round))") auto

text \<open>
  \<^verbatim>\<open>run\<close>: the two assertions, the rounds, and the copy of the haplotypes to
  \<^verbatim>\<open>out_haplotypes\<close>. The result is the return code, the output vector and the builder.
\<close>

definition run :: "collab \<Rightarrow> builder \<Rightarrow> error + (HaplotypeBuilderReturnCode \<times> string list \<times> builder)" where
  "run env b =
     (if length (m_haplotypes b) \<noteq> 1 then Inl AssertionFailed
      else if m_pBWT b = NULL then Inl AssertionFailed
      else (case run_loop env b 0 of
              Inl e \<Rightarrow> Inl e
            | Inr b' \<Rightarrow> Inr (HBRC_OK, m_haplotypes b', b')))"

section \<open>The steps in the words of the specification\<close>

text \<open>
  The definitions of this section do not come from the code: they state what the
  specification says a step computes, and the theorems below compare the code with them.
  Their names start with \<open>spec_\<close>.
\<close>

text \<open>
  Extension step, cases 4 to 6: a haplotype with no valid symbol stays as it is, and one
  with valid symbols takes the first of them.
\<close>

definition spec_primary_extension :: "collab \<Rightarrow> builder \<Rightarrow> EdgeDir \<Rightarrow> string \<Rightarrow> string" where
  "spec_primary_extension env b direction h =
     (case valid_extensions env b direction h of
        Inr (c # cs) \<Rightarrow> extend_dir direction h c
      | _ \<Rightarrow> h)"

text \<open>
  Extension step, case 6: every other valid symbol gives a clone of the haplotype as it
  was before the step, extended with that symbol.
\<close>

definition spec_staged_branches :: "collab \<Rightarrow> builder \<Rightarrow> EdgeDir \<Rightarrow> string \<Rightarrow> string list" where
  "spec_staged_branches env b direction h =
     (case valid_extensions env b direction h of
        Inr (c # cs) \<Rightarrow> map (extend_dir direction h) cs
      | _ \<Rightarrow> [])"

text \<open>
  Cull step, 2a: position \<open>k\<close> of the read placed at offset \<open>j\<close> is a mismatch when it
  falls past the end of the haplotype or the symbols differ; the score of the offset is
  the number of such positions.
\<close>

definition spec_mismatch_at :: "string \<Rightarrow> string \<Rightarrow> nat \<Rightarrow> nat \<Rightarrow> bool" where
  "spec_mismatch_at haplotype read j k \<longleftrightarrow>
     length haplotype \<le> j + k \<or> haplotype ! (j + k) \<noteq> read ! k"

definition spec_mismatch_score :: "string \<Rightarrow> string \<Rightarrow> nat \<Rightarrow> nat" where
  "spec_mismatch_score haplotype read j =
     length (filter (spec_mismatch_at haplotype read j) [0..<length read])"

text \<open>Cull step, 2a: the offsets of the haplotype whose score is the least.\<close>

definition spec_best_offsets :: "string \<Rightarrow> string \<Rightarrow> nat list" where
  "spec_best_offsets haplotype read =
     filter (\<lambda>j. \<forall>j' \<in> {0..<length haplotype}.
                  spec_mismatch_score haplotype read j \<le> spec_mismatch_score haplotype read j')
       [0..<length haplotype]"

text \<open>
  Cull step, 2b: a best offset is accepted when the edit distance of its alignment is at
  most the maximum edit distance; the placement is the start coordinate of the alignment.
\<close>

definition spec_accepted :: "collab \<Rightarrow> nat \<Rightarrow> string \<Rightarrow> string \<Rightarrow> nat \<Rightarrow> bool" where
  "spec_accepted env max_edit_distance haplotype read =
     (\<lambda>j. edit_distance (extendMatch env haplotype read j 0 2) \<le> int max_edit_distance)"

definition spec_placements :: "collab \<Rightarrow> nat \<Rightarrow> string \<Rightarrow> string \<Rightarrow> int list" where
  "spec_placements env max_edit_distance haplotype =
     (\<lambda>read. map (\<lambda>j. match0_start (extendMatch env haplotype read j 0 2))
        (filter (spec_accepted env max_edit_distance haplotype read) (spec_best_offsets haplotype read)))"

text \<open>
  Cull step, 2c: the incoherency score is the largest gap between consecutive start
  coordinates of the accepted placements, sorted; with fewer than two accepted
  placements it is 0.
\<close>

definition spec_incoherency_score :: "int list \<Rightarrow> int" where
  "spec_incoherency_score starts =
     (let s = sort starts in
      if length s < 2 then 0 else Max (set (map (\<lambda>(a, b). b - a) (zip s (tl s)))))"

text \<open>
  The orchestrator: a run is a list of steps. Round \<open>r\<close> is an extension step in the
  sense direction, one in the antisense direction and, when \<open>r\<close> is a multiple of 10, a
  cull step; the schedule is the rounds 1 to 100. A step that fails ends the run.
\<close>

datatype spec_step = ExtendStep EdgeDir | CullStep

definition spec_do_step :: "collab \<Rightarrow> spec_step \<Rightarrow> builder \<Rightarrow> error + builder" where
  "spec_do_step env s b =
     (case s of
        ExtendStep direction \<Rightarrow> extendOnce env b direction
      | CullStep \<Rightarrow> cullHaplotypes env b)"

fun spec_do_steps :: "collab \<Rightarrow> spec_step list \<Rightarrow> builder \<Rightarrow> error + builder" where
  "spec_do_steps env [] b = Inr b"
| "spec_do_steps env (s # ss) b =
     (case spec_do_step env s b of
        Inl e \<Rightarrow> Inl e
      | Inr b' \<Rightarrow> spec_do_steps env ss b')"

definition spec_round_steps :: "nat \<Rightarrow> spec_step list" where
  "spec_round_steps r =
     [ExtendStep ED_SENSE, ExtendStep ED_ANTISENSE] @ (if r mod 10 = 0 then [CullStep] else [])"

definition spec_schedule :: "spec_step list" where
  "spec_schedule = concat (map spec_round_steps [1..<101])"

text \<open>
  Determinism: two sets of collaborators give the same responses to the queries of a
  run of builder \<open>b\<close> when the index counts agree on the symbols of the alphabet for the
  index handle of \<open>b\<close>, the read retrieval agrees for the handles and the k of \<open>b\<close> and
  the cap of 100000 reads, the aligner agrees for the start 0 on the read and the
  bandwidth 2, and the reverse complement agrees.
\<close>

definition same_responses :: "collab \<Rightarrow> collab \<Rightarrow> builder \<Rightarrow> bool" where
  "same_responses env env' b \<longleftrightarrow>
     (\<forall>q direction. \<forall>c\<in>set DNA_ALPHABET.
        calculateDeBruijnExtensionsSingleIndex env q (m_pBWT b) direction c =
        calculateDeBruijnExtensionsSingleIndex env' q (m_pBWT b) direction c) \<and>
     (\<forall>hs doReverse.
        extractHaplotypeReads env hs (m_pBWT b) (m_pIntervalCache b) (m_pSSA b) (m_kmer b) doReverse 100000 =
        extractHaplotypeReads env' hs (m_pBWT b) (m_pIntervalCache b) (m_pSSA b) (m_kmer b) doReverse 100000) \<and>
     (\<forall>s1 s2 start_1. extendMatch env s1 s2 start_1 0 2 = extendMatch env' s1 s2 start_1 0 2) \<and>
     (\<forall>s. reverseComplement env s = reverseComplement env' s)"

section \<open>Example collaborators\<close>

text \<open>
  A small index and aligner on which the steps can be run. The index answers the anchor
  \<open>ACGT\<close> with the counts A:5, C:5, G:0, T:0 (the tie-break example of the
  specification), the anchor \<open>CGTA\<close> with one G, and every other anchor with no
  support. The read retrieval returns the two forward reads of the specification's cull
  example. The aligner places the read at the offset it is given and counts the
  differing symbols of the overlap.
\<close>

definition example_counts :: "string \<Rightarrow> ptr \<Rightarrow> EdgeDir \<Rightarrow> AlphaCount64" where
  "example_counts q p direction c =
     (if q = ''ACGT'' then (if c = CHR ''A'' \<or> c = CHR ''C'' then 5 else 0)
      else if q = ''CGTA'' then (if c = CHR ''G'' then 1 else 0)
      else 0)"

definition example_reads ::
  "string list \<Rightarrow> ptr \<Rightarrow> ptr \<Rightarrow> ptr \<Rightarrow> nat \<Rightarrow> bool \<Rightarrow> nat \<Rightarrow> string list"
where
  "example_reads hs pBWT pCache pSSA k doReverse maxReads =
     (if doReverse then [] else [''ACGTACGTACGT'', ''TTTTTTTT''])"

definition example_extendMatch :: "string \<Rightarrow> string \<Rightarrow> nat \<Rightarrow> nat \<Rightarrow> nat \<Rightarrow> SequenceOverlap" where
  "example_extendMatch s1 s2 start_1 start_2 bandwidth =
     \<lparr> edit_distance =
         int (length (filter (\<lambda>k. start_1 + k < length s1 \<and> s1 ! (start_1 + k) \<noteq> s2 ! k)
                        [0..<length s2])),
       match0_start = int start_1 \<rparr>"

definition example_env :: collab where
  "example_env =
     \<lparr> calculateDeBruijnExtensionsSingleIndex = example_counts,
       extractHaplotypeReads = example_reads,
       extendMatch = example_extendMatch,
       reverseComplement = rev \<rparr>"

text \<open>A builder configured with the index handles 1, 2, 3 and k = 4, holding \<open>hs\<close>.\<close>

definition example_builder :: "string list \<Rightarrow> builder" where
  "example_builder hs =
     (setIndex 1 2 3 (setKmer 4 (ReadCoherentHaplotypeBuilder 0 0 0)))\<lparr> m_haplotypes := hs \<rparr>"

text \<open>
  A second set of collaborators: it differs from the first in the count of the symbol N,
  which is not in the alphabet, and in the reads returned for a cap other than 100000.
\<close>

definition example_env2 :: collab where
  "example_env2 =
     example_env
       \<lparr> calculateDeBruijnExtensionsSingleIndex :=
           (\<lambda>q p direction c. if c = CHR ''N'' then 7 else example_counts q p direction c),
         extractHaplotypeReads :=
           (\<lambda>hs pBWT pCache pSSA k doReverse maxReads.
              if maxReads = 100000 then example_reads hs pBWT pCache pSSA k doReverse maxReads else []) \<rparr>"

text \<open>The scores of the candidates of the cull example below.\<close>

definition example_score :: "string \<Rightarrow> int" where
  "example_score h = (if h = ''ACGTACGTACGTGGGGGGGGGGACGTACGTACGTT'' then 22 else 3)"

text \<open>
  The defining equations of the loops are recursive and unconditional: they are unfolded
  by hand, one iteration at a time.
\<close>

declare extensionBases_loop.simps [simp del]
declare branch_loop.simps [simp del]
declare extend_loop.simps [simp del]
declare count_mismatches.simps [simp del]
declare best_starts_loop.simps [simp del]
declare overlap_loop.simps [simp del]
declare reads_loop.simps [simp del]
declare max_jump_loop.simps [simp del]
declare run_loop.simps [simp del]

section \<open>The loops of the extension step\<close>

lemma extensionBases_loop_filter:
  "i \<le> DNA_ALPHABET_size \<Longrightarrow>
   extensionBases_loop b counts i acc =
     acc @ filter (\<lambda>c. m_kmerThreshold b \<le> counts c) (drop i DNA_ALPHABET)"
proof (induction b counts i acc rule: extensionBases_loop.induct)
  case (1 b counts i acc)
  show ?case
  proof (cases "i < DNA_ALPHABET_size")
    case True
    then have "i < length DNA_ALPHABET"
      by (simp add: DNA_ALPHABET_size_def DNA_ALPHABET_def)
    then have d: "drop i DNA_ALPHABET = getBase i # drop (Suc i) DNA_ALPHABET"
      unfolding getBase_def by (rule Cons_nth_drop_Suc [symmetric])
    from True have "Suc i \<le> DNA_ALPHABET_size" by simp
    with 1 True show ?thesis
      by (subst extensionBases_loop.simps) (simp add: d Let_def)
  next
    case False
    with 1 have "i = DNA_ALPHABET_size" by simp
    then show ?thesis
      by (subst extensionBases_loop.simps) (simp add: DNA_ALPHABET_size_def DNA_ALPHABET_def)
  qed
qed

lemma branch_loop_map:
  "branch_loop d h bases i inc = inc @ map (extend_dir d h) (drop i bases)"
proof (induction d h bases i inc rule: branch_loop.induct)
  case (1 d h bases i inc)
  show ?case
  proof (cases "i < length bases")
    case True
    then have "drop i bases = bases ! i # drop (Suc i) bases"
      by (simp add: Cons_nth_drop_Suc)
    with 1 True show ?thesis
      by (subst branch_loop.simps) simp
  next
    case False
    then show ?thesis
      by (subst branch_loop.simps) simp
  qed
qed

lemma take_Suc_update: "i < length hs \<Longrightarrow> take (Suc i) (hs[i := x]) = take i hs @ [x]"
  by (simp add: take_Suc_conv_app_nth)

lemma extend_loop_Inr:
  "extend_loop env b d i hs inc = Inr (live, staged) \<Longrightarrow>
   live = take i hs @ map (spec_primary_extension env b d) (drop i hs) \<and>
   staged = inc @ concat (map (spec_staged_branches env b d) (drop i hs))"
proof (induction env b d i hs inc rule: extend_loop.induct)
  case (1 env b d i hs inc)
  show ?case
  proof (cases "i < length hs")
    case False
    with "1.prems" show ?thesis
      by (subst (asm) extend_loop.simps) simp
  next
    case True
    then have dr: "drop i hs = hs ! i # drop (Suc i) hs"
      by (simp add: Cons_nth_drop_Suc)
    show ?thesis
    proof (cases "valid_extensions env b d (hs ! i)")
      case (Inl e)
      with True "1.prems" show ?thesis
        by (subst (asm) extend_loop.simps) simp
    next
      case (Inr bases)
      consider (one) "length bases = 1" | (many) "1 < length bases" | (none) "bases = []"
        by (cases bases) auto
      then show ?thesis
      proof cases
        case one
        then obtain c where bs: "bases = [c]"
          by (cases bases) auto
        from "1.prems" True Inr one
        have "extend_loop env b d (i + 1) (hs[i := extend_dir d (hs ! i) (bases ! 0)]) inc = Inr (live, staged)"
          by (subst (asm) extend_loop.simps) simp
        from "1.IH"(1) [OF True Inr one this] True
        show ?thesis
          by (simp add: dr take_Suc_update spec_primary_extension_def spec_staged_branches_def Inr bs)
      next
        case many
        then obtain c cs where bs: "bases = c # cs"
          by (cases bases) auto
        from many have ne: "length bases \<noteq> 1" by simp
        from "1.prems" True Inr many ne
        have "extend_loop env b d (i + 1) (hs[i := extend_dir d (hs ! i) (bases ! 0)])
                (branch_loop d (hs ! i) bases 1 inc) = Inr (live, staged)"
          by (subst (asm) extend_loop.simps) simp
        from "1.IH"(2) [OF True Inr ne many this] True
        show ?thesis
          by (simp add: dr take_Suc_update spec_primary_extension_def spec_staged_branches_def Inr bs
                branch_loop_map)
      next
        case none
        then have ne: "length bases \<noteq> 1" and nm: "\<not> 1 < length bases" by simp_all
        from "1.prems" True Inr ne nm
        have "extend_loop env b d (i + 1) hs inc = Inr (live, staged)"
          by (subst (asm) extend_loop.simps) simp
        from "1.IH"(3) [OF True Inr ne nm this] True
        show ?thesis
          by (simp add: dr take_Suc_conv_app_nth spec_primary_extension_def spec_staged_branches_def Inr none)
      qed
    qed
  qed
qed

lemma extend_loop_total:
  "\<forall>j. i \<le> j \<and> j < length hs \<longrightarrow> (\<exists>bases. valid_extensions env b d (hs ! j) = Inr bases) \<Longrightarrow>
   \<exists>live staged. extend_loop env b d i hs inc = Inr (live, staged)"
proof (induction env b d i hs inc rule: extend_loop.induct)
  case (1 env b d i hs inc)
  show ?case
  proof (cases "i < length hs")
    case False
    then show ?thesis
      by (subst extend_loop.simps) simp
  next
    case True
    with "1.prems" obtain bases where Inr: "valid_extensions env b d (hs ! i) = Inr bases"
      by blast
    have later: "\<forall>j. i + 1 \<le> j \<and> j < length (hs[i := x]) \<longrightarrow>
        (\<exists>bases. valid_extensions env b d (hs[i := x] ! j) = Inr bases)" for x
      using "1.prems" by simp
    have later': "\<forall>j. i + 1 \<le> j \<and> j < length hs \<longrightarrow>
        (\<exists>bases. valid_extensions env b d (hs ! j) = Inr bases)"
      using "1.prems" by simp
    consider (one) "length bases = 1" | (many) "length bases \<noteq> 1" "1 < length bases"
      | (none) "length bases \<noteq> 1" "\<not> 1 < length bases"
      by blast
    then show ?thesis
    proof cases
      case one
      from "1.IH"(1) [OF True Inr one later] True Inr one show ?thesis
        by (subst extend_loop.simps) simp
    next
      case many
      from "1.IH"(2) [OF True Inr many later] True Inr many show ?thesis
        by (subst extend_loop.simps) simp
    next
      case none
      from "1.IH"(3) [OF True Inr none later'] True Inr none show ?thesis
        by (subst extend_loop.simps) simp
    qed
  qed
qed

section \<open>The loops of the cull step\<close>

lemma count_mismatches_filter:
  "count_mismatches hap read j k m =
     m + length (filter (spec_mismatch_at hap read j) [k..<length read])"
proof (induction hap read j k m rule: count_mismatches.induct)
  case (1 hap read j k m)
  show ?case
  proof (cases "k < length read")
    case True
    then have "[k..<length read] = k # [Suc k..<length read]"
      by (simp add: upt_conv_Cons)
    moreover have "(if j + k < length hap \<and> hap ! (j + k) = read ! k then 0 else 1) =
        (if spec_mismatch_at hap read j k then 1 else (0::nat))"
      by (auto simp: spec_mismatch_at_def)
    ultimately show ?thesis
      using 1 True by (subst count_mismatches.simps) simp
  next
    case False
    then show ?thesis
      by (subst count_mismatches.simps) simp
  qed
qed

lemma count_mismatches_score: "count_mismatches hap read j 0 0 = spec_mismatch_score hap read j"
  by (simp add: count_mismatches_filter spec_mismatch_score_def)

lemma mismatch_score_le: "spec_mismatch_score hap read j \<le> length read"
  unfolding spec_mismatch_score_def by (rule order_trans [OF length_filter_le]) simp

lemma best_starts_loop_inv:
  assumes "j \<le> length hap"
      and "bs = filter (\<lambda>x. spec_mismatch_score hap read x = bm) [0..<j]"
      and "\<forall>x<j. bm \<le> spec_mismatch_score hap read x"
      and "(\<exists>x<j. spec_mismatch_score hap read x = bm) \<or> (\<forall>x<length hap. spec_mismatch_score hap read x \<le> bm)"
  shows "snd (best_starts_loop hap read j bm bs) =
           filter (\<lambda>x. \<forall>y<length hap. spec_mismatch_score hap read x \<le> spec_mismatch_score hap read y)
             [0..<length hap]"
  using assms
proof (induction hap read j bm bs rule: best_starts_loop.induct)
  case (1 hap read j bm bs)
  let ?s = "spec_mismatch_score hap read"
  show ?case
  proof (cases "j < length hap")
    case False
    with "1.prems"(1) have j: "j = length hap" by simp
    have "filter (\<lambda>x. ?s x = bm) [0..<length hap] =
          filter (\<lambda>x. \<forall>y<length hap. ?s x \<le> ?s y) [0..<length hap]"
    proof (rule filter_cong [OF refl])
      fix x assume "x \<in> set [0..<length hap]"
      then have x: "x < length hap" by simp
      show "(?s x = bm) = (\<forall>y<length hap. ?s x \<le> ?s y)"
      proof
        assume "?s x = bm"
        with "1.prems"(3) j show "\<forall>y<length hap. ?s x \<le> ?s y" by simp
      next
        assume a: "\<forall>y<length hap. ?s x \<le> ?s y"
        from "1.prems"(3) j x have "bm \<le> ?s x" by simp
        moreover from "1.prems"(4) j a x have "?s x \<le> bm" by auto
        ultimately show "?s x = bm" by simp
      qed
    qed
    with False "1.prems"(2) j show ?thesis
      by (subst best_starts_loop.simps) simp
  next
    case True
    let ?m = "count_mismatches hap read j 0 0"
    have m: "?m = ?s j" by (rule count_mismatches_score)
    have Sj: "j + 1 \<le> length hap" using True by simp
    have upt: "[0..<j + 1] = [0..<j] @ [j]" by simp
    consider (less) "?m < bm" | (eq) "\<not> ?m < bm" "?m = bm" | (more) "\<not> ?m < bm" "?m \<noteq> bm"
      by blast
    then show ?thesis
    proof cases
      case less
      have a2: "[j] = filter (\<lambda>x. ?s x = ?m) [0..<j + 1]"
        using less "1.prems"(3) unfolding upt m by (auto simp: filter_empty_conv)
      have a3: "\<forall>x<j + 1. ?m \<le> ?s x"
        using less "1.prems"(3) unfolding m by (auto simp: less_Suc_eq)
      have a4: "(\<exists>x<j + 1. ?s x = ?m) \<or> (\<forall>x<length hap. ?s x \<le> ?m)"
        unfolding m by auto
      from "1.IH"(1) [OF True refl less Sj a2 a3 a4] True less show ?thesis
        by (subst best_starts_loop.simps) (simp add: Let_def)
    next
      case eq
      have a2: "bs @ [j] = filter (\<lambda>x. ?s x = bm) [0..<j + 1]"
        using eq "1.prems"(2) unfolding upt m by simp
      have a3: "\<forall>x<j + 1. bm \<le> ?s x"
        using eq "1.prems"(3) unfolding m by (auto simp: less_Suc_eq)
      have a4: "(\<exists>x<j + 1. ?s x = bm) \<or> (\<forall>x<length hap. ?s x \<le> bm)"
        using eq unfolding m by auto
      from "1.IH"(2) [OF True refl eq Sj a2 a3 a4] True eq show ?thesis
        by (subst best_starts_loop.simps) (simp add: Let_def)
    next
      case more
      then have gt: "bm < ?s j" unfolding m by simp
      have a2: "bs = filter (\<lambda>x. ?s x = bm) [0..<j + 1]"
        using gt "1.prems"(2) unfolding upt by simp
      have a3: "\<forall>x<j + 1. bm \<le> ?s x"
        using gt "1.prems"(3) by (auto simp: less_Suc_eq)
      have a4: "(\<exists>x<j + 1. ?s x = bm) \<or> (\<forall>x<length hap. ?s x \<le> bm)"
        using gt True "1.prems"(4) by (auto simp: less_Suc_eq)
      from "1.IH"(3) [OF True refl more Sj a2 a3 a4] True more show ?thesis
        by (subst best_starts_loop.simps) (simp add: Let_def)
    qed
  qed
qed

lemma find_best_starts_min:
  assumes "length read \<le> SIZE_MAX"
  shows "find_best_starts hap read =
           filter (\<lambda>x. \<forall>y<length hap. spec_mismatch_score hap read x \<le> spec_mismatch_score hap read y)
             [0..<length hap]"
  unfolding find_best_starts_def
proof (rule best_starts_loop_inv)
  show "(\<exists>x<0. spec_mismatch_score hap read x = SIZE_MAX) \<or>
        (\<forall>x<length hap. spec_mismatch_score hap read x \<le> SIZE_MAX)"
    using assms mismatch_score_le [of hap read] by (meson order_trans)
qed simp_all

lemma find_best_starts_best_offsets:
  "length read \<le> SIZE_MAX \<Longrightarrow> find_best_starts hap read = spec_best_offsets hap read"
  by (simp add: find_best_starts_min spec_best_offsets_def Ball_def cong: filter_cong)

lemma overlap_loop_filter:
  "overlap_loop env b hap read bs j sv =
     sv @ map (\<lambda>j. match0_start (extendMatch env hap read j 0 2))
            (filter (\<lambda>j. edit_distance (extendMatch env hap read j 0 2)
                            \<le> int_of_size_t (m_maxEditDistance b)) (drop j bs))"
proof (induction env b hap read bs j sv rule: overlap_loop.induct)
  case (1 env b hap read bs j sv)
  show ?case
  proof (cases "j < length bs")
    case True
    then have "drop j bs = bs ! j # drop (Suc j) bs"
      by (simp add: Cons_nth_drop_Suc)
    with 1 True show ?thesis
      by (subst overlap_loop.simps) (simp add: Let_def)
  next
    case False
    then show ?thesis
      by (subst overlap_loop.simps) simp
  qed
qed

lemma reads_loop_concat:
  "reads_loop env b hap i sv =
     sv @ concat (map (\<lambda>read. overlap_loop env b hap read (find_best_starts hap read) 0 [])
                    (drop i (m_reads b)))"
proof (induction env b hap i sv rule: reads_loop.induct)
  case (1 env b hap i sv)
  show ?case
  proof (cases "i < length (m_reads b)")
    case True
    then have "drop i (m_reads b) = m_reads b ! i # drop (Suc i) (m_reads b)"
      by (simp add: Cons_nth_drop_Suc)
    with 1 True show ?thesis
      by (subst reads_loop.simps) (simp add: Let_def overlap_loop_filter)
  next
    case False
    then show ?thesis
      by (subst reads_loop.simps) simp
  qed
qed

lemma size_t_sub_ge:
  assumes "b \<le> a" and "a < 2 ^ 64"
  shows "size_t_sub a b = a - b"
proof -
  from assms(1) have h1: "a + 2 ^ 64 - b = (a - b) + 2 ^ 64" by simp
  from assms(2) have h2: "a - b < 2 ^ 64" by simp
  show ?thesis
    unfolding size_t_sub_def by (simp only: h1 mod_add_self2 mod_less [OF h2])
qed

lemma size_t_sub_lt:
  assumes "a < b" and "b < 2 ^ 64"
  shows "size_t_sub a b = a + 2 ^ 64 - b"
proof -
  from assms have "a + 2 ^ 64 - b < 2 ^ 64" by simp
  then show ?thesis
    unfolding size_t_sub_def by (rule mod_less)
qed

lemma size_t_sub_0_1: "0 < size_t_sub 0 1"
proof -
  have "size_t_sub 0 1 = 0 + 2 ^ 64 - 1"
    by (rule size_t_sub_lt) simp_all
  then show ?thesis by simp
qed

lemma max_jump_loop_empty: "max_jump_loop [] 0 m = Inl VectorOverrun"
  using size_t_sub_0_1 by (subst max_jump_loop.simps) simp

lemma size_t_sub_pred:
  assumes "0 < n" and "n < 2 ^ 64"
  shows "size_t_sub n 1 = n - 1"
proof (rule size_t_sub_ge)
  show "1 \<le> n" using assms(1) by simp
  show "n < 2 ^ 64" by (rule assms(2))
qed

lemma max_jump_loop_single: "max_jump_loop [x] 0 m = Inr m"
proof -
  have "size_t_sub (length [x]) 1 = length [x] - 1"
    by (rule size_t_sub_pred) simp_all
  then show ?thesis
    by (subst max_jump_loop.simps) simp
qed

lemma max_jump_loop_total:
  assumes "sv \<noteq> []" and "length sv < 2 ^ 64"
    and "\<forall>k. k + 1 < length sv \<longrightarrow> (\<exists>jump. int_sub (sv ! (k + 1)) (sv ! k) = Inr jump)"
  shows "\<exists>s. max_jump_loop sv i m = Inr s"
  using assms
proof (induction sv i m rule: max_jump_loop.induct)
  case (1 sv i m)
  from "1.prems"(1,2) have bound: "size_t_sub (length sv) 1 = length sv - 1"
    by (intro size_t_sub_pred) simp_all
  show ?case
  proof (cases "i < length sv - 1")
    case True
    then have lt: "i + 1 < length sv" by simp
    from True bound have c: "i < size_t_sub (length sv) 1" by simp
    from lt "1.prems"(3) obtain jump where j: "int_sub (sv ! (i + 1)) (sv ! i) = Inr jump"
      by blast
    from "1.IH" [OF c lt j "1.prems"] obtain s where
      "max_jump_loop sv (i + 1) (if m < jump then jump else m) = Inr s"
      by blast
    with c lt j have "max_jump_loop sv i m = Inr s"
      by (subst max_jump_loop.simps) simp
    then show ?thesis by blast
  next
    case False
    with bound have "\<not> i < size_t_sub (length sv) 1" by simp
    then have "max_jump_loop sv i m = Inr m"
      by (subst max_jump_loop.simps) simp
    then show ?thesis by blast
  qed
qed

lemma max_jump_loop_overflow:
  "int_sub y x = Inl SignedOverflow \<Longrightarrow> max_jump_loop [x, y] 0 m = Inl SignedOverflow"
proof -
  assume o: "int_sub y x = Inl SignedOverflow"
  have "size_t_sub (length [x, y]) 1 = length [x, y] - 1"
    by (rule size_t_sub_pred) simp_all
  with o show ?thesis
    by (subst max_jump_loop.simps) simp
qed

lemma max_jump_loop_overflow_example:
  "max_jump_loop [- 2000000000, 2000000000] 0 0 = Inl SignedOverflow"
  by (rule max_jump_loop_overflow) (simp add: int_sub_def INT_MAX_def INT_MIN_def)

lemma cull_loop_filter:
  "\<forall>h\<in>set hs. calculateHaplotypeIncoherency env b h = Inr (score h) \<Longrightarrow>
   cull_loop env b hs = Inr (filter (\<lambda>h. \<not> 20 < score h) hs)"
  by (induction hs) auto

lemma cull_loop_Inr:
  "cull_loop env b hs = Inr hs' \<Longrightarrow>
   hs' = filter (\<lambda>h. \<exists>s. calculateHaplotypeIncoherency env b h = Inr s \<and> \<not> 20 < s) hs"
  by (induction hs arbitrary: hs') (auto split: sum.splits if_splits)

section \<open>The extension step as a whole\<close>

lemma valid_extensions_query:
  "query_kmer b d h = Inr q \<Longrightarrow>
   valid_extensions env b d h =
     Inr (filter (\<lambda>c. m_kmerThreshold b \<le> calculateDeBruijnExtensionsSingleIndex env q (m_pBWT b) d c)
            DNA_ALPHABET)"
  by (simp add: valid_extensions_def extensionBases_loop_filter)

lemma valid_extensions_Inr:
  "valid_extensions env b d h = Inr bases \<Longrightarrow>
   \<exists>q. query_kmer b d h = Inr q \<and>
       bases = filter (\<lambda>c. m_kmerThreshold b \<le> calculateDeBruijnExtensionsSingleIndex env q (m_pBWT b) d c)
                 DNA_ALPHABET"
  by (cases "query_kmer b d h") (auto simp: valid_extensions_def extensionBases_loop_filter)

lemma extendOnce_Inr:
  assumes "extendOnce env b d = Inr b'"
  shows "b' = b\<lparr> m_haplotypes :=
                  map (spec_primary_extension env b d) (m_haplotypes b) @
                  concat (map (spec_staged_branches env b d) (m_haplotypes b)) \<rparr>"
proof -
  from assms obtain live staged where
    loop: "extend_loop env b d 0 (m_haplotypes b) [] = Inr (live, staged)"
    and b': "b' = b\<lparr> m_haplotypes := live @ staged \<rparr>"
    by (auto simp: extendOnce_def split: sum.splits)
  from extend_loop_Inr [OF loop] b' show ?thesis by simp
qed

lemma extendOnce_total:
  assumes "\<forall>h\<in>set (m_haplotypes b). \<exists>q. query_kmer b d h = Inr q"
  shows "\<exists>b'. extendOnce env b d = Inr b'"
proof -
  have "\<forall>j. 0 \<le> j \<and> j < length (m_haplotypes b) \<longrightarrow>
          (\<exists>bases. valid_extensions env b d (m_haplotypes b ! j) = Inr bases)"
    using assms valid_extensions_query by (metis nth_mem)
  from extend_loop_total [OF this] obtain live staged where
    "extend_loop env b d 0 (m_haplotypes b) [] = Inr (live, staged)" by blast
  then show ?thesis by (simp add: extendOnce_def)
qed

lemma primary_extension_cases:
  "valid_extensions env b d h = Inr (c # cs) \<Longrightarrow> spec_primary_extension env b d h = extend_dir d h c"
  "valid_extensions env b d h = Inr [] \<Longrightarrow> spec_primary_extension env b d h = h"
  by (simp_all add: spec_primary_extension_def)


lemma length_extend_dir: "length (extend_dir d h c) = Suc (length h)"
  by (simp add: extend_dir_def)


lemma query_kmer_antisense: "query_kmer b ED_ANTISENSE h = Inr (take (m_kmer b) h)"
  by (simp add: query_kmer_def substr_def)

lemma query_kmer_sense:
  assumes "m_kmer b \<le> length h" and "length h < 2 ^ 64"
  shows "query_kmer b ED_SENSE h = Inr (drop (length h - m_kmer b) h)"
  using size_t_sub_ge [OF assms] by (simp add: query_kmer_def substr_from_def)

lemma query_kmer_sense_short:
  assumes "length h < m_kmer b" and "m_kmer b < 2 ^ 64"
  shows "query_kmer b ED_SENSE h = Inl OutOfRange"
proof -
  from assms have "length h < length h + 2 ^ 64 - m_kmer b" by simp
  with size_t_sub_lt [OF assms] show ?thesis
    by (simp add: query_kmer_def substr_from_def)
qed

section \<open>The cull step as a whole\<close>

lemma cullHaplotypes_Inr:
  assumes "cullHaplotypes env b = Inr b'"
  shows "m_haplotypes b' =
           filter (\<lambda>h. \<exists>s. calculateHaplotypeIncoherency env (getReads env (b\<lparr> m_reads := [] \<rparr>)) h = Inr s
                           \<and> \<not> 20 < s)
             (m_haplotypes b)"
proof -
  let ?b1 = "getReads env (b\<lparr> m_reads := [] \<rparr>)"
  have hs: "m_haplotypes ?b1 = m_haplotypes b"
    by (simp add: getReads_def Let_def)
  from assms obtain hs' where "cull_loop env ?b1 (m_haplotypes ?b1) = Inr hs'"
    and "b' = ?b1\<lparr> m_haplotypes := hs' \<rparr>"
    by (auto simp: cullHaplotypes_def Let_def split: sum.splits)
  with cull_loop_Inr [of env ?b1 "m_haplotypes ?b1" hs'] hs show ?thesis
    by simp
qed

lemma incoherency_no_placement:
  "reads_loop env b h 0 [] = [] \<Longrightarrow> calculateHaplotypeIncoherency env b h = Inl VectorOverrun"
  by (simp add: calculateHaplotypeIncoherency_def max_jump_loop_empty)

lemma incoherency_one_placement:
  "reads_loop env b h 0 [] = [x] \<Longrightarrow> calculateHaplotypeIncoherency env b h = Inr 0"
  by (simp add: calculateHaplotypeIncoherency_def max_jump_loop_single)

lemma int_of_size_t_small:
  assumes "n < 2 ^ 31"
  shows "int_of_size_t n = int n"
proof -
  have "int_of_size_t n = signed_take_bit 31 (int n)"
    by (simp add: int_of_size_t_def signed_of_nat)
  also have "\<dots> = int n"
  proof (rule signed_take_bit_int_eq_self)
    show "- (2 ^ 31) \<le> int n"
      by (rule order_trans [of _ 0]) simp_all
    from assms have "int n < int (2 ^ 31)"
      by (rule iffD2 [OF of_nat_less_iff])
    then show "int n < 2 ^ 31"
      by simp
  qed
  finally show ?thesis .
qed

section \<open>The rounds as a schedule\<close>

lemma do_steps_append:
  "spec_do_steps env (xs @ ys) b = (case spec_do_steps env xs b of Inl e \<Rightarrow> Inl e | Inr b' \<Rightarrow> spec_do_steps env ys b')"
  by (induction xs arbitrary: b) (auto split: sum.splits)

lemma run_loop_schedule:
  "r \<le> 100 \<Longrightarrow> run_loop env b (int r) = spec_do_steps env (concat (map spec_round_steps [Suc r..<101])) b"
proof (induction "100 - r" arbitrary: r b)
  case 0
  then have r: "r = 100" by simp
  show ?case
    unfolding r by (subst run_loop.simps) (simp add: MAX_ROUNDS_def)
next
  case (Suc n)
  then have lt: "r < 100" and n: "n = 100 - Suc r" and le: "Suc r \<le> 100"
    by simp_all
  have IH: "run_loop env b' (int r + 1) = spec_do_steps env (concat (map spec_round_steps [Suc (Suc r)..<101])) b'" for b'
    using Suc.hyps(1) [OF n le, of b'] by (simp add: add.commute)
  have upt: "[Suc r..<101] = Suc r # [Suc (Suc r)..<101]"
    using lt by (simp add: upt_conv_Cons)
  have m: "((int r + 1) mod 10 = 0) = (Suc r mod 10 = 0)"
    by presburger
  from lt have c: "int r < MAX_ROUNDS"
    by (simp add: MAX_ROUNDS_def)
  show ?case
    unfolding upt
    by (subst run_loop.simps)
       (simp add: c Let_def IH m spec_round_steps_def spec_do_step_def split: sum.splits)
qed

section \<open>Collaborators with the same responses\<close>

lemma same_responses_config:
  assumes "same_responses env env' b"
    and "m_pBWT b' = m_pBWT b" and "m_pIntervalCache b' = m_pIntervalCache b"
    and "m_pSSA b' = m_pSSA b" and "m_kmer b' = m_kmer b"
  shows "same_responses env env' b'"
  using assms unfolding same_responses_def by simp

lemma valid_extensions_cong:
  assumes "same_responses env env' b"
  shows "valid_extensions env b d h = valid_extensions env' b d h"
proof (cases "query_kmer b d h")
  case (Inl e)
  then show ?thesis by (simp add: valid_extensions_def)
next
  case (Inr q)
  have "filter (\<lambda>c. m_kmerThreshold b \<le> calculateDeBruijnExtensionsSingleIndex env q (m_pBWT b) d c)
          DNA_ALPHABET =
        filter (\<lambda>c. m_kmerThreshold b \<le> calculateDeBruijnExtensionsSingleIndex env' q (m_pBWT b) d c)
          DNA_ALPHABET"
    using assms by (intro filter_cong refl) (simp add: same_responses_def)
  then show ?thesis
    by (simp add: valid_extensions_query [OF Inr])
qed

lemma extend_loop_cong:
  assumes "same_responses env env' b"
  shows "extend_loop env b d i hs inc = extend_loop env' b d i hs inc"
  using assms
proof (induction env b d i hs inc rule: extend_loop.induct)
  case (1 env b d i hs inc)
  note v = valid_extensions_cong [OF "1.prems"]
  show ?case
  proof (cases "i < length hs")
    case False
    then show ?thesis
      by (simp add: extend_loop.simps [of env b d i hs inc] extend_loop.simps [of env' b d i hs inc])
  next
    case True
    show ?thesis
    proof (cases "valid_extensions env b d (hs ! i)")
      case (Inl e)
      then have Inl': "valid_extensions env' b d (hs ! i) = Inl e"
        using v [of d "hs ! i"] by simp
      from True Inl Inl' show ?thesis
        by (simp add: extend_loop.simps [of env b d i hs inc] extend_loop.simps [of env' b d i hs inc])
    next
      case (Inr bases)
      then have Inr': "valid_extensions env' b d (hs ! i) = Inr bases"
        using v [of d "hs ! i"] by simp
      consider (one) "length bases = 1" | (many) "length bases \<noteq> 1" "1 < length bases"
        | (none) "length bases \<noteq> 1" "\<not> 1 < length bases"
        by blast
      then show ?thesis
      proof cases
        case one
        from "1.IH"(1) [OF True Inr one "1.prems"] True Inr Inr' one show ?thesis
          by (simp add: extend_loop.simps [of env b d i hs inc] extend_loop.simps [of env' b d i hs inc])
      next
        case many
        from "1.IH"(2) [OF True Inr many "1.prems"] True Inr Inr' many show ?thesis
          by (simp add: extend_loop.simps [of env b d i hs inc] extend_loop.simps [of env' b d i hs inc])
      next
        case none
        from "1.IH"(3) [OF True Inr none "1.prems"] True Inr Inr' none show ?thesis
          by (simp add: extend_loop.simps [of env b d i hs inc] extend_loop.simps [of env' b d i hs inc])
      qed
    qed
  qed
qed

lemma extendOnce_cong:
  "same_responses env env' b \<Longrightarrow> extendOnce env b d = extendOnce env' b d"
  by (simp add: extendOnce_def extend_loop_cong)

lemma extendOnce_config:
  assumes "extendOnce env b d = Inr b'"
  shows "m_pBWT b' = m_pBWT b \<and> m_pIntervalCache b' = m_pIntervalCache b \<and>
         m_pSSA b' = m_pSSA b \<and> m_kmer b' = m_kmer b"
  by (subst (1 2 3 4) extendOnce_Inr [OF assms]) simp

lemma calculateHaplotypeIncoherency_cong:
  assumes "same_responses env env' b0"
  shows "calculateHaplotypeIncoherency env b h = calculateHaplotypeIncoherency env' b h"
proof -
  from assms have "extendMatch env s1 s2 j 0 2 = extendMatch env' s1 s2 j 0 2" for s1 s2 j
    by (simp add: same_responses_def)
  then have "reads_loop env b h 0 [] = reads_loop env' b h 0 []"
    by (simp add: reads_loop_concat overlap_loop_filter)
  then show ?thesis
    by (simp add: calculateHaplotypeIncoherency_def)
qed

lemma cull_loop_cong:
  assumes "same_responses env env' b0"
  shows "cull_loop env b hs = cull_loop env' b hs"
proof (induction hs)
  case Nil
  show ?case by simp
next
  case (Cons h hs)
  then show ?case
    by (simp add: calculateHaplotypeIncoherency_cong [OF assms] cong: sum.case_cong)
qed

lemma getReads_cong:
  assumes "same_responses env env' b"
  shows "getReads env b = getReads env' b"
  using assms by (simp add: getReads_def same_responses_def Let_def)

lemma cullHaplotypes_cong:
  assumes "same_responses env env' b"
  shows "cullHaplotypes env b = cullHaplotypes env' b"
proof -
  have "same_responses env env' (b\<lparr> m_reads := [] \<rparr>)"
    by (rule same_responses_config [OF assms]) simp_all
  then have "getReads env (b\<lparr> m_reads := [] \<rparr>) = getReads env' (b\<lparr> m_reads := [] \<rparr>)"
    by (rule getReads_cong)
  then show ?thesis
    by (simp add: cullHaplotypes_def cull_loop_cong [OF assms])
qed

lemma cullHaplotypes_config:
  assumes "cullHaplotypes env b = Inr b'"
  shows "m_pBWT b' = m_pBWT b \<and> m_pIntervalCache b' = m_pIntervalCache b \<and>
         m_pSSA b' = m_pSSA b \<and> m_kmer b' = m_kmer b"
  using assms by (auto simp: cullHaplotypes_def getReads_def Let_def split: sum.splits)

lemma run_loop_cong:
  assumes "same_responses env env' b"
  shows "run_loop env b round = run_loop env' b round"
  using assms
proof (induction env b round rule: run_loop.induct)
  case (1 env b round)
  note unfold = run_loop.simps [of env b round] run_loop.simps [of env' b round]
  show ?case
  proof (cases "round < MAX_ROUNDS")
    case False
    then show ?thesis
      by (simp add: unfold)
  next
    case True
    have e1: "extendOnce env' b ED_SENSE = extendOnce env b ED_SENSE"
      using "1.prems" by (rule extendOnce_cong [symmetric])
    show ?thesis
    proof (cases "extendOnce env b ED_SENSE")
      case (Inl e)
      with True e1 show ?thesis
        by (simp add: unfold Let_def)
    next
      case (Inr b1)
      have s1: "same_responses env env' b1"
        using extendOnce_config [OF Inr] by (intro same_responses_config [OF "1.prems"]) simp_all
      have e2: "extendOnce env' b1 ED_ANTISENSE = extendOnce env b1 ED_ANTISENSE"
        using s1 by (rule extendOnce_cong [symmetric])
      show ?thesis
      proof (cases "extendOnce env b1 ED_ANTISENSE")
        case Inl2: (Inl e)
        with True e1 e2 Inr show ?thesis
          by (simp add: unfold Let_def)
      next
        case Inr2: (Inr b2)
        have s2: "same_responses env env' b2"
          using extendOnce_config [OF Inr2] by (intro same_responses_config [OF s1]) simp_all
        show ?thesis
        proof (cases "(round + 1) mod 10 = 0")
          case False
          from "1.IH"(2) [OF True refl Inr Inr2 False s2] True e1 e2 Inr Inr2 False show ?thesis
            by (simp add: unfold Let_def)
        next
          case cull: True
          have e3: "cullHaplotypes env' b2 = cullHaplotypes env b2"
            using s2 by (rule cullHaplotypes_cong [symmetric])
          show ?thesis
          proof (cases "cullHaplotypes env b2")
            case Inl3: (Inl e)
            with True e1 e2 e3 Inr Inr2 cull show ?thesis
              by (simp add: unfold Let_def)
          next
            case Inr3: (Inr b3)
            have s3: "same_responses env env' b3"
              using cullHaplotypes_config [OF Inr3]
              by (intro same_responses_config [OF s2]) simp_all
            from "1.IH"(1) [OF True refl Inr Inr2 cull Inr3 s3] True e1 e2 e3 Inr Inr2 cull Inr3
            show ?thesis
              by (simp add: unfold Let_def)
          qed
        qed
      qed
    qed
  qed
qed

section \<open>Claims about the extension step\<close>



text \<open>
  Claim C2 (deferred merge). When the extension step returns normally, its loop ends
  with a live list and a staging list. The live list has the length of the candidate
  set before the step and holds each old candidate, extended or not; the staging list
  holds the branches; the new candidate set is the live list followed by the staging
  list. Every staged candidate is a candidate of the set before the step plus exactly
  one symbol, so none of them was extended again in the pass.
\<close>

theorem branches_staged_until_pass_ends:
  assumes "extendOnce env b direction = Inr b'"
  shows "\<exists>live staged.
           extend_loop env b direction 0 (m_haplotypes b) [] = Inr (live, staged) \<and>
           m_haplotypes b' = live @ staged \<and>
           length live = length (m_haplotypes b) \<and>
           live = map (spec_primary_extension env b direction) (m_haplotypes b) \<and>
           staged = concat (map (spec_staged_branches env b direction) (m_haplotypes b)) \<and>
           (\<forall>s\<in>set staged. \<exists>h\<in>set (m_haplotypes b). \<exists>c.
               s = extend_dir direction h c \<and> length s = Suc (length h))"
proof -
  from assms obtain live staged where
    loop: "extend_loop env b direction 0 (m_haplotypes b) [] = Inr (live, staged)"
    and b': "b' = b\<lparr> m_haplotypes := live @ staged \<rparr>"
    by (auto simp: extendOnce_def split: sum.splits)
  from extend_loop_Inr [OF loop]
  have live: "live = map (spec_primary_extension env b direction) (m_haplotypes b)"
    and staged: "staged = concat (map (spec_staged_branches env b direction) (m_haplotypes b))"
    by simp_all
  have "\<exists>h\<in>set (m_haplotypes b). \<exists>c. s = extend_dir direction h c \<and> length s = Suc (length h)"
    if "s \<in> set staged" for s
  proof -
    from that staged obtain h where h: "h \<in> set (m_haplotypes b)"
      and s: "s \<in> set (spec_staged_branches env b direction h)"
      by auto
    from s obtain c where "s = extend_dir direction h c"
      by (auto simp: spec_staged_branches_def split: sum.splits list.splits)
    with h show ?thesis
      by (auto simp: length_extend_dir)
  qed
  with loop b' live staged show ?thesis
    by simp
qed

theorem branches_staged_until_pass_ends_witness:
  "extendOnce example_env (example_builder [''ACGT'', ''TTTT'', ''CGTA'']) ED_SENSE =
     Inr (example_builder [''ACGTA'', ''TTTT'', ''CGTAG'', ''ACGTC'']) \<and>
   extend_loop example_env (example_builder [''ACGT'', ''TTTT'', ''CGTA'']) ED_SENSE 0
       [''ACGT'', ''TTTT'', ''CGTA''] [] =
     Inr ([''ACGTA'', ''TTTT'', ''CGTAG''], [''ACGTC''])"
proof -
  let ?b = "example_builder [''ACGT'', ''TTTT'', ''CGTA'']"
  let ?b' = "example_builder [''ACGTA'', ''TTTT'', ''CGTAG'', ''ACGTC'']"
  have h1: "extendOnce example_env ?b ED_SENSE = Inr ?b'"
    by code_simp
  have hs: "m_haplotypes ?b = [''ACGT'', ''TTTT'', ''CGTA'']"
    by code_simp
  have p: "map (spec_primary_extension example_env ?b ED_SENSE) [''ACGT'', ''TTTT'', ''CGTA''] =
             [''ACGTA'', ''TTTT'', ''CGTAG'']"
    by code_simp
  have s: "concat (map (spec_staged_branches example_env ?b ED_SENSE) [''ACGT'', ''TTTT'', ''CGTA'']) =
             [''ACGTC'']"
    by code_simp
  from branches_staged_until_pass_ends [OF h1]
  have "extend_loop example_env ?b ED_SENSE 0 [''ACGT'', ''TTTT'', ''CGTA''] [] =
          Inr ([''ACGTA'', ''TTTT'', ''CGTAG''], [''ACGTC''])"
    unfolding hs p s by blast
  with h1 show ?thesis
    by (rule conjI)
qed



text \<open>
  Claim C8 (stall). If the anchor of every candidate can be taken, and no symbol of the
  alphabet reaches the threshold for the anchor of the candidate at position \<open>i\<close>, then
  the extension step returns normally, the candidate set is not smaller, and the
  candidate at position \<open>i\<close> is unchanged.
\<close>

theorem stall_leaves_candidate:
  assumes "\<forall>h\<in>set (m_haplotypes b). \<exists>q'. query_kmer b direction h = Inr q'"
    and "i < length (m_haplotypes b)"
    and "query_kmer b direction (m_haplotypes b ! i) = Inr q"
    and "\<forall>c\<in>set DNA_ALPHABET.
           calculateDeBruijnExtensionsSingleIndex env q (m_pBWT b) direction c < m_kmerThreshold b"
  shows "\<exists>b'. extendOnce env b direction = Inr b' \<and>
              length (m_haplotypes b) \<le> length (m_haplotypes b') \<and>
              m_haplotypes b' ! i = m_haplotypes b ! i"
proof -
  from extendOnce_total [OF assms(1)] obtain b' where b': "extendOnce env b direction = Inr b'"
    by blast
  have hs': "m_haplotypes b' = map (spec_primary_extension env b direction) (m_haplotypes b) @
               concat (map (spec_staged_branches env b direction) (m_haplotypes b))"
    using extendOnce_Inr [OF b'] by simp
  have "filter (\<lambda>c. m_kmerThreshold b \<le>
            calculateDeBruijnExtensionsSingleIndex env q (m_pBWT b) direction c) DNA_ALPHABET = []"
    using assms(4) by (auto simp: filter_empty_conv)
  with valid_extensions_query [OF assms(3), of env]
  have "valid_extensions env b direction (m_haplotypes b ! i) = Inr []"
    by simp
  then have "spec_primary_extension env b direction (m_haplotypes b ! i) = m_haplotypes b ! i"
    by (rule primary_extension_cases)
  with assms(2) have "m_haplotypes b' ! i = m_haplotypes b ! i"
    by (simp add: hs' nth_append)
  moreover have "length (m_haplotypes b) \<le> length (m_haplotypes b')"
    by (simp add: hs')
  ultimately show ?thesis
    using b' by blast
qed

theorem stall_leaves_candidate_witness:
  "query_kmer (example_builder [''ACGT'', ''TTTT'', ''CGTA'']) ED_SENSE ''TTTT'' = Inr ''TTTT'' \<and>
   (\<exists>b'. extendOnce example_env (example_builder [''ACGT'', ''TTTT'', ''CGTA'']) ED_SENSE = Inr b' \<and>
         length [''ACGT'', ''TTTT'', ''CGTA''] \<le> length (m_haplotypes b') \<and>
         m_haplotypes b' ! 1 = ''TTTT'')"
proof -
  let ?b = "example_builder [''ACGT'', ''TTTT'', ''CGTA'']"
  have hs: "m_haplotypes ?b = [''ACGT'', ''TTTT'', ''CGTA'']"
    by code_simp
  have h1: "\<forall>h\<in>set (m_haplotypes ?b). \<exists>q'. query_kmer ?b ED_SENSE h = Inr q'"
  proof -
    have "query_kmer ?b ED_SENSE ''ACGT'' = Inr ''ACGT''"
      "query_kmer ?b ED_SENSE ''TTTT'' = Inr ''TTTT''"
      "query_kmer ?b ED_SENSE ''CGTA'' = Inr ''CGTA''"
      by code_simp+
    then show ?thesis
      by (simp add: hs)
  qed
  have h2: "1 < length (m_haplotypes ?b)"
    by (simp add: hs)
  have h3: "query_kmer ?b ED_SENSE (m_haplotypes ?b ! 1) = Inr ''TTTT''"
    by code_simp
  have h4: "\<forall>c\<in>set DNA_ALPHABET.
      calculateDeBruijnExtensionsSingleIndex example_env ''TTTT'' (m_pBWT ?b) ED_SENSE c
        < m_kmerThreshold ?b"
    by code_simp
  from h3 have h3': "query_kmer ?b ED_SENSE ''TTTT'' = Inr ''TTTT''"
    by (simp add: hs)
  from stall_leaves_candidate [OF h1 h2 h3 h4]
  have "\<exists>b'. extendOnce example_env ?b ED_SENSE = Inr b' \<and>
         length [''ACGT'', ''TTTT'', ''CGTA''] \<le> length (m_haplotypes b') \<and>
         m_haplotypes b' ! 1 = ''TTTT''"
    by (simp add: hs)
  with h3' show ?thesis
    by (rule conjI)
qed

text \<open>
  Claim C10 (order). After an extension step the first candidates of the set are the old
  candidates in their old order, each extended or not, and the branches follow them. A
  cull step after it leaves a subsequence of the set: candidates keep their relative
  order and only move towards the front.
\<close>

theorem order_preserved:
  assumes "extendOnce env b direction = Inr b1"
    and "cullHaplotypes env b1 = Inr b2"
  shows "take (length (m_haplotypes b)) (m_haplotypes b1) =
           map (spec_primary_extension env b direction) (m_haplotypes b) \<and>
         drop (length (m_haplotypes b)) (m_haplotypes b1) =
           concat (map (spec_staged_branches env b direction) (m_haplotypes b)) \<and>
         subseq (m_haplotypes b2) (m_haplotypes b1)"
proof -
  have "m_haplotypes b1 = map (spec_primary_extension env b direction) (m_haplotypes b) @
          concat (map (spec_staged_branches env b direction) (m_haplotypes b))"
    using extendOnce_Inr [OF assms(1)] by simp
  moreover have "subseq (m_haplotypes b2) (m_haplotypes b1)"
    unfolding cullHaplotypes_Inr [OF assms(2)] by (rule subseq_filter_left)
  ultimately show ?thesis
    by simp
qed

theorem order_preserved_witness:
  "extendOnce example_env (example_builder [''ACGTACGTACGTGGGGGGGGGGACGTACGTACGTT'', ''ACGT'']) ED_SENSE =
     Inr (example_builder [''ACGTACGTACGTGGGGGGGGGGACGTACGTACGTT'', ''ACGTA'', ''ACGTC'']) \<and>
   cullHaplotypes example_env
       (example_builder [''ACGTACGTACGTGGGGGGGGGGACGTACGTACGTT'', ''ACGTA'', ''ACGTC'']) =
     Inr ((example_builder [''ACGTA'', ''ACGTC''])\<lparr> m_reads := [''ACGTACGTACGT'', ''TTTTTTTT''] \<rparr>) \<and>
   subseq [''ACGTA'', ''ACGTC''] [''ACGTACGTACGTGGGGGGGGGGACGTACGTACGTT'', ''ACGTA'', ''ACGTC'']"
proof -
  let ?b = "example_builder [''ACGTACGTACGTGGGGGGGGGGACGTACGTACGTT'', ''ACGT'']"
  let ?b1 = "example_builder [''ACGTACGTACGTGGGGGGGGGGACGTACGTACGTT'', ''ACGTA'', ''ACGTC'']"
  let ?b2 = "(example_builder [''ACGTA'', ''ACGTC''])\<lparr> m_reads := [''ACGTACGTACGT'', ''TTTTTTTT''] \<rparr>"
  have h1: "extendOnce example_env ?b ED_SENSE = Inr ?b1"
    by code_simp
  have h2: "cullHaplotypes example_env ?b1 = Inr ?b2"
    by code_simp
  have hs1: "m_haplotypes ?b1 = [''ACGTACGTACGTGGGGGGGGGGACGTACGTACGTT'', ''ACGTA'', ''ACGTC'']"
    by code_simp
  have hs2: "m_haplotypes ?b2 = [''ACGTA'', ''ACGTC'']"
    by code_simp
  from order_preserved [OF h1 h2]
  have "subseq (m_haplotypes ?b2) (m_haplotypes ?b1)"
    by blast
  then have c: "subseq [''ACGTA'', ''ACGTC''] [''ACGTACGTACGTGGGGGGGGGGACGTACGTACGTT'', ''ACGTA'', ''ACGTC'']"
    unfolding hs1 hs2 .
  show ?thesis
    by (rule conjI [OF h1 conjI [OF h2 c]])
qed

section \<open>Claims about the cull step\<close>

text \<open>
  What the cull step does when the incoherency of every candidate is computed, with the
  result \<open>score h\<close> for candidate \<open>h\<close>: it returns normally and keeps exactly the
  candidates whose score is not above 20, in their order; if every score is at most 20
  the candidate set is unchanged in content and size.
\<close>

theorem cull_keeps_scored_candidates:
  assumes "\<forall>h\<in>set (m_haplotypes b).
             calculateHaplotypeIncoherency env (getReads env (b\<lparr> m_reads := [] \<rparr>)) h = Inr (score h)"
  shows "\<exists>b'. cullHaplotypes env b = Inr b' \<and>
              m_haplotypes b' = filter (\<lambda>h. \<not> 20 < score h) (m_haplotypes b) \<and>
              ((\<forall>h\<in>set (m_haplotypes b). score h \<le> 20) \<longrightarrow>
                 m_haplotypes b' = m_haplotypes b \<and>
                 length (m_haplotypes b') = length (m_haplotypes b))"
proof -
  let ?b1 = "getReads env (b\<lparr> m_reads := [] \<rparr>)"
  have hs: "m_haplotypes ?b1 = m_haplotypes b"
    by (simp add: getReads_def Let_def)
  from assms have "cull_loop env ?b1 (m_haplotypes ?b1) =
                     Inr (filter (\<lambda>h. \<not> 20 < score h) (m_haplotypes ?b1))"
    unfolding hs by (rule cull_loop_filter)
  then have "cullHaplotypes env b =
               Inr (?b1\<lparr> m_haplotypes := filter (\<lambda>h. \<not> 20 < score h) (m_haplotypes b) \<rparr>)"
    by (simp add: cullHaplotypes_def Let_def hs)
  moreover have "filter (\<lambda>h. \<not> 20 < score h) (m_haplotypes b) = m_haplotypes b"
    if "\<forall>h\<in>set (m_haplotypes b). score h \<le> 20"
    using that by (auto simp: filter_id_conv)
  ultimately show ?thesis
    by auto
qed

theorem cull_keeps_scored_candidates_example:
  "calculateHaplotypeIncoherency example_env
     ((example_builder [''ACGTACGTACGTGGGGGGGGGGACGTACGTACGTT'', ''ACGTA'', ''ACGTC''])
        \<lparr> m_reads := [''ACGTACGTACGT'', ''TTTTTTTT''] \<rparr>)
     ''ACGTACGTACGTGGGGGGGGGGACGTACGTACGTT'' = Inr 22 \<and>
   calculateHaplotypeIncoherency example_env
     ((example_builder [''ACGTACGTACGTGGGGGGGGGGACGTACGTACGTT'', ''ACGTA'', ''ACGTC''])
        \<lparr> m_reads := [''ACGTACGTACGT'', ''TTTTTTTT''] \<rparr>) ''ACGTA'' = Inr 3 \<and>
   calculateHaplotypeIncoherency example_env
     ((example_builder [''ACGTACGTACGTGGGGGGGGGGACGTACGTACGTT'', ''ACGTA'', ''ACGTC''])
        \<lparr> m_reads := [''ACGTACGTACGT'', ''TTTTTTTT''] \<rparr>) ''ACGTC'' = Inr 3 \<and>
   (\<exists>b'. cullHaplotypes example_env
           (example_builder [''ACGTACGTACGTGGGGGGGGGGACGTACGTACGTT'', ''ACGTA'', ''ACGTC'']) = Inr b' \<and>
         m_haplotypes b' = [''ACGTA'', ''ACGTC'']) \<and>
   (\<exists>b'. cullHaplotypes example_env (example_builder [''ACGTA'', ''ACGTC'']) = Inr b' \<and>
         m_haplotypes b' = [''ACGTA'', ''ACGTC''] \<and>
         length (m_haplotypes b') = length [''ACGTA'', ''ACGTC''])"
proof -
  let ?L = "''ACGTACGTACGTGGGGGGGGGGACGTACGTACGTT''"
  let ?b = "example_builder [?L, ''ACGTA'', ''ACGTC'']"
  let ?br = "?b\<lparr> m_reads := [''ACGTACGTACGT'', ''TTTTTTTT''] \<rparr>"
  let ?c = "example_builder [''ACGTA'', ''ACGTC'']"
  let ?cr = "?c\<lparr> m_reads := [''ACGTACGTACGT'', ''TTTTTTTT''] \<rparr>"
  have hs: "m_haplotypes ?b = [?L, ''ACGTA'', ''ACGTC'']"
    by code_simp
  have r: "getReads example_env (?b\<lparr> m_reads := [] \<rparr>) = ?br"
    by code_simp
  have s1: "calculateHaplotypeIncoherency example_env ?br ?L = Inr 22"
    by code_simp
  have s2: "calculateHaplotypeIncoherency example_env ?br ''ACGTA'' = Inr 3"
    by code_simp
  have s3: "calculateHaplotypeIncoherency example_env ?br ''ACGTC'' = Inr 3"
    by code_simp
  have h: "\<forall>h\<in>set (m_haplotypes ?b).
      calculateHaplotypeIncoherency example_env (getReads example_env (?b\<lparr> m_reads := [] \<rparr>)) h =
        Inr (example_score h)"
    unfolding hs r using s1 s2 s3 by (simp add: example_score_def)
  have f: "filter (\<lambda>h. \<not> 20 < example_score h) [?L, ''ACGTA'', ''ACGTC''] = [''ACGTA'', ''ACGTC'']"
    by code_simp
  from cull_keeps_scored_candidates [OF h]
  have c: "\<exists>b'. cullHaplotypes example_env ?b = Inr b' \<and> m_haplotypes b' = [''ACGTA'', ''ACGTC'']"
    unfolding hs f by blast
  have hs': "m_haplotypes ?c = [''ACGTA'', ''ACGTC'']"
    by code_simp
  have r': "getReads example_env (?c\<lparr> m_reads := [] \<rparr>) = ?cr"
    by code_simp
  have t2: "calculateHaplotypeIncoherency example_env ?cr ''ACGTA'' = Inr 3"
    by code_simp
  have t3: "calculateHaplotypeIncoherency example_env ?cr ''ACGTC'' = Inr 3"
    by code_simp
  have h': "\<forall>h\<in>set (m_haplotypes ?c).
      calculateHaplotypeIncoherency example_env (getReads example_env (?c\<lparr> m_reads := [] \<rparr>)) h =
        Inr (example_score h)"
    unfolding hs' r' using t2 t3 by (simp add: example_score_def)
  have clean: "\<forall>h\<in>set (m_haplotypes ?c). example_score h \<le> 20"
    unfolding hs' by (simp add: example_score_def)
  from cull_keeps_scored_candidates [OF h'] clean
  have "\<exists>b'. cullHaplotypes example_env ?c = Inr b' \<and>
          m_haplotypes b' = m_haplotypes ?c \<and> length (m_haplotypes b') = length (m_haplotypes ?c)"
    by blast
  then have c': "\<exists>b'. cullHaplotypes example_env ?c = Inr b' \<and>
          m_haplotypes b' = [''ACGTA'', ''ACGTC''] \<and>
          length (m_haplotypes b') = length [''ACGTA'', ''ACGTC'']"
    unfolding hs' .
  show ?thesis
    by (rule conjI [OF s1 conjI [OF s2 conjI [OF s3 conjI [OF c c']]]])
qed

text \<open>
  Claim C3 (cull). The cull step is to remove exactly the candidates whose incoherency
  score is above 20, and to leave the candidate set unchanged when every score is at
  most 20. The code does not do so on the candidate set \<open>ACGTA\<close>, \<open>GCGTAG\<close> with the
  reads of the example: the accepted placements of \<open>ACGTA\<close> start at 0 and 3, score 3;
  \<open>GCGTAG\<close> has no accepted placement, score 0; both scores are at most 20, and the
  cull step does not return the unchanged set but reads past the end of the empty
  vector of start positions of \<open>GCGTAG\<close>.
\<close>

theorem cull_aborts_on_unplaced_candidate:
  "reads_loop example_env
     ((example_builder [''ACGTA'', ''GCGTAG''])\<lparr> m_reads := [''ACGTACGTACGT'', ''TTTTTTTT''] \<rparr>)
     ''ACGTA'' 0 [] = [0, 3] \<and>
   spec_incoherency_score [0, 3] = 3 \<and>
   reads_loop example_env
     ((example_builder [''ACGTA'', ''GCGTAG''])\<lparr> m_reads := [''ACGTACGTACGT'', ''TTTTTTTT''] \<rparr>)
     ''GCGTAG'' 0 [] = [] \<and>
   spec_incoherency_score [] = 0 \<and>
   getReads example_env ((example_builder [''ACGTA'', ''GCGTAG''])\<lparr> m_reads := [] \<rparr>) =
     (example_builder [''ACGTA'', ''GCGTAG''])\<lparr> m_reads := [''ACGTACGTACGT'', ''TTTTTTTT''] \<rparr> \<and>
   cullHaplotypes example_env (example_builder [''ACGTA'', ''GCGTAG'']) = Inl VectorOverrun"
  by code_simp

text \<open>
  Claim C4 (fewer than two placements). With exactly one accepted placement the score is
  0 (lemma \<open>incoherency_one_placement\<close>). With no accepted placement the bound of the
  last loop, \<^verbatim>\<open>start_vector.size() - 1\<close>, wraps around to the largest \<^verbatim>\<open>size_t\<close> and
  the first iteration reads past the end of the empty vector (lemma
  \<open>incoherency_no_placement\<close>). The theorem runs the code on the candidate \<open>ACGTACGT\<close>
  with the single read \<open>TTTTTTTT\<close>, which the aligner rejects at each of its best
  offsets: the score is not 0 and the cull step does not return a candidate set. A run
  from the seed \<open>CGTA\<close> meets the same case: its candidate is \<open>GCGTAG\<close> from the first
  round on, the aligner rejects both reads of the example on it, and the cull step of
  round 10 reads past the end of the empty vector.
\<close>

theorem zero_placements_overrun:
  "reads_loop example_env ((example_builder [''ACGTACGT''])\<lparr> m_reads := [''TTTTTTTT''] \<rparr>)
     ''ACGTACGT'' 0 [] = [] \<and>
   calculateHaplotypeIncoherency example_env
     ((example_builder [''ACGTACGT''])\<lparr> m_reads := [''TTTTTTTT''] \<rparr>) ''ACGTACGT'' = Inl VectorOverrun \<and>
   cullHaplotypes (example_env\<lparr> extractHaplotypeReads := (\<lambda>hs pBWT pCache pSSA k r n. [''TTTTTTTT'']) \<rparr>)
     (example_builder [''ACGTACGT'']) = Inl VectorOverrun \<and>
   run example_env (example_builder [''CGTA'']) = Inl VectorOverrun"
  by code_simp

text \<open>
  Claim C6 (mismatch scan). For a read whose length is a \<^verbatim>\<open>size_t\<close> and a maximum edit
  distance that the cast to \<^verbatim>\<open>int\<close> keeps, the score the code gives to offset \<open>j\<close> is
  the number of read positions that fall past the end of the haplotype or differ from
  it; the scan over all offsets of the haplotype keeps, in increasing order, exactly
  the offsets whose score is the least; and the loop over the best offsets appends to
  the start positions the start coordinate of the alignment of each best offset whose
  edit distance is at most the maximum edit distance.
\<close>

theorem mismatch_scan:
  assumes "length read \<le> SIZE_MAX"
    and "m_maxEditDistance b < 2 ^ 31"
  shows "count_mismatches haplotype read j 0 0 = spec_mismatch_score haplotype read j \<and>
         find_best_starts haplotype read = spec_best_offsets haplotype read \<and>
         overlap_loop env b haplotype read (find_best_starts haplotype read) 0 start_vector =
           start_vector @ spec_placements env (m_maxEditDistance b) haplotype read"
proof -
  have "find_best_starts haplotype read = spec_best_offsets haplotype read"
    using assms(1) by (rule find_best_starts_best_offsets)
  moreover have "overlap_loop env b haplotype read (spec_best_offsets haplotype read) 0 start_vector =
      start_vector @ spec_placements env (m_maxEditDistance b) haplotype read"
    by (simp add: overlap_loop_filter spec_placements_def spec_accepted_def int_of_size_t_small [OF assms(2)])
  ultimately show ?thesis
    by (simp add: count_mismatches_score)
qed

theorem mismatch_scan_witness:
  "length ''ACGTACGTACGT'' \<le> SIZE_MAX \<and>
   m_maxEditDistance (example_builder []) < 2 ^ 31 \<and>
   spec_mismatch_score ''ACGTACGT'' ''ACGTACGTACGT'' 0 = 4 \<and>
   spec_mismatch_score ''ACGTACGT'' ''ACGTACGTACGT'' 4 = 8 \<and>
   spec_best_offsets ''ACGTACGT'' ''ACGTACGTACGT'' = [0] \<and>
   spec_placements example_env (m_maxEditDistance (example_builder [])) ''ACGTACGT'' ''ACGTACGTACGT'' = [0]"
proof -
  have h1: "length ''ACGTACGTACGT'' \<le> SIZE_MAX"
    by code_simp
  have h2: "m_maxEditDistance (example_builder []) < 2 ^ 31"
    by code_simp
  have e1: "count_mismatches ''ACGTACGT'' ''ACGTACGTACGT'' 0 0 0 = 4"
    by code_simp
  have e2: "count_mismatches ''ACGTACGT'' ''ACGTACGTACGT'' 4 0 0 = 8"
    by code_simp
  have e3: "find_best_starts ''ACGTACGT'' ''ACGTACGTACGT'' = [0]"
    by code_simp
  have e4: "overlap_loop example_env (example_builder []) ''ACGTACGT'' ''ACGTACGTACGT'' [0] 0 [] = [0]"
    by code_simp
  note m = mismatch_scan [OF h1 h2, of "''ACGTACGT''"]
  from m [of 0] e1 have c1: "spec_mismatch_score ''ACGTACGT'' ''ACGTACGTACGT'' 0 = 4"
    by simp
  from m [of 4] e2 have c2: "spec_mismatch_score ''ACGTACGT'' ''ACGTACGTACGT'' 4 = 8"
    by simp
  from m [of 0] e3 have c3: "spec_best_offsets ''ACGTACGT'' ''ACGTACGTACGT'' = [0]"
    by simp
  from m [of 0 example_env "[]"] e3 e4
  have c4: "spec_placements example_env (m_maxEditDistance (example_builder []))
              ''ACGTACGT'' ''ACGTACGTACGT'' = [0]"
    by simp
  show ?thesis
    by (rule conjI [OF h1 conjI [OF h2 conjI [OF c1 conjI [OF c2 conjI [OF c3 c4]]]]])
qed

section \<open>Claims about the run\<close>

text \<open>
  What \<^verbatim>\<open>run\<close> does on every input. Its loop is a total function, and for every
  builder and every index it is the execution of the fixed schedule: the rounds 1 to
  100, each an extension step in the sense direction followed by one in the antisense
  direction, followed by a cull step exactly when the number of the round is a multiple
  of 10, which makes 10 cull steps. \<^verbatim>\<open>run\<close> itself checks its two assertions, executes
  the schedule and returns the candidates. The size of the candidate set does not
  enter; a run ends before the schedule does only if a step fails.
\<close>

theorem run_is_schedule:
  "run_loop env b 0 = spec_do_steps env spec_schedule b \<and>
   spec_schedule = concat (map spec_round_steps [1..<101]) \<and>
   length [1..<101 :: nat] = 100 \<and>
   take 2 (spec_round_steps r) = [ExtendStep ED_SENSE, ExtendStep ED_ANTISENSE] \<and>
   drop 2 (spec_round_steps r) = (if r mod 10 = 0 then [CullStep] else []) \<and>
   length (filter (\<lambda>s. s = CullStep) spec_schedule) = 10 \<and>
   run env b =
     (if length (m_haplotypes b) = 1 \<and> m_pBWT b \<noteq> NULL then
        (case spec_do_steps env spec_schedule b of
           Inl e \<Rightarrow> Inl e
         | Inr b' \<Rightarrow> Inr (HBRC_OK, m_haplotypes b', b'))
      else Inl AssertionFailed)"
proof -
  have 1: "run_loop env b 0 = spec_do_steps env spec_schedule b"
    using run_loop_schedule [of 0 env b] by (simp add: spec_schedule_def)
  have 2: "length (filter (\<lambda>s. s = CullStep) spec_schedule) = 10"
    by code_simp
  have 3: "take 2 (spec_round_steps r) = [ExtendStep ED_SENSE, ExtendStep ED_ANTISENSE]"
    "drop 2 (spec_round_steps r) = (if r mod 10 = 0 then [CullStep] else [])"
    by (simp_all add: spec_round_steps_def)
  have 4: "run env b =
     (if length (m_haplotypes b) = 1 \<and> m_pBWT b \<noteq> NULL then
        (case spec_do_steps env spec_schedule b of
           Inl e \<Rightarrow> Inl e
         | Inr b' \<Rightarrow> Inr (HBRC_OK, m_haplotypes b', b'))
      else Inl AssertionFailed)"
    by (simp add: run_def 1)
  from 1 2 3 4 show ?thesis
    by (simp add: spec_schedule_def)
qed

theorem run_is_schedule_example:
  "run example_env (example_builder [''GGGG'']) =
     Inr (HBRC_OK, [''GGGG''],
          (example_builder [''GGGG''])\<lparr> m_reads := [''ACGTACGTACGT'', ''TTTTTTTT''] \<rparr>) \<and>
   spec_do_steps example_env spec_schedule (example_builder [''GGGG'']) =
     Inr ((example_builder [''GGGG''])\<lparr> m_reads := [''ACGTACGTACGT'', ''TTTTTTTT''] \<rparr>)"
proof -
  let ?b = "example_builder [''GGGG'']"
  let ?b' = "?b\<lparr> m_reads := [''ACGTACGTACGT'', ''TTTTTTTT''] \<rparr>"
  have r: "run example_env ?b = Inr (HBRC_OK, [''GGGG''], ?b')"
    by code_simp
  have a: "length (m_haplotypes ?b) = 1 \<and> m_pBWT ?b \<noteq> NULL"
    by code_simp
  from run_is_schedule [of example_env ?b] a r
  have "(case spec_do_steps example_env spec_schedule ?b of
           Inl e \<Rightarrow> Inl e
         | Inr b' \<Rightarrow> Inr (HBRC_OK, m_haplotypes b', b')) = Inr (HBRC_OK, [''GGGG''], ?b')"
    by simp
  then have "spec_do_steps example_env spec_schedule ?b = Inr ?b'"
    by (simp split: sum.splits)
  with r show ?thesis
    by (rule conjI)
qed

text \<open>
  Claim C7 (round budget). A run is to execute 100 rounds and 10 cull steps on every
  input. The code does not on the seed \<open>CGTA\<close> with k = 4 and the example index, an
  input that meets the assertions of \<^verbatim>\<open>run\<close> and the precondition that the seed has at
  least k symbols: the rounds 1 to 9 return and leave the candidate \<open>GCGTAG\<close>, the two
  extension steps of round 10 return and leave it as it is, and the cull step of round
  10, the first of the run, reads past the end of the empty vector of start positions.
  No cull step completes, and the rounds 11 to 100 are not executed.
\<close>

theorem run_aborts_in_round_10:
  "length (m_haplotypes (example_builder [''CGTA''])) = 1 \<and>
   m_pBWT (example_builder [''CGTA'']) \<noteq> NULL \<and>
   m_kmer (example_builder [''CGTA'']) \<le> length ''CGTA'' \<and>
   spec_do_steps example_env (concat (map spec_round_steps [1..<10])) (example_builder [''CGTA'']) =
     Inr (example_builder [''GCGTAG'']) \<and>
   take 2 (spec_round_steps 10) = [ExtendStep ED_SENSE, ExtendStep ED_ANTISENSE] \<and>
   spec_do_steps example_env (take 2 (spec_round_steps 10)) (example_builder [''GCGTAG'']) =
     Inr (example_builder [''GCGTAG'']) \<and>
   drop 2 (spec_round_steps 10) = [CullStep] \<and>
   spec_do_step example_env CullStep (example_builder [''GCGTAG'']) = Inl VectorOverrun \<and>
   run example_env (example_builder [''CGTA'']) = Inl VectorOverrun"
  by code_simp

text \<open>
  Claim C9 (determinism). Two runs of the same builder, with collaborators that give
  the same responses to the queries of a run, have the same result: the same error, or
  the same candidates in the same order.
\<close>

theorem determinism:
  assumes "same_responses env env' b"
  shows "run env b = run env' b"
  using run_loop_cong [OF assms] by (simp add: run_def)

theorem determinism_witness:
  "same_responses example_env example_env2 (example_builder [''ACGT'']) \<and>
   calculateDeBruijnExtensionsSingleIndex example_env ''ACGT'' 1 ED_SENSE CHR ''N'' \<noteq>
     calculateDeBruijnExtensionsSingleIndex example_env2 ''ACGT'' 1 ED_SENSE CHR ''N'' \<and>
   run example_env (example_builder [''ACGT'']) = run example_env2 (example_builder [''ACGT''])"
proof -
  have h: "same_responses example_env example_env2 (example_builder [''ACGT''])"
    by (simp add: same_responses_def example_env2_def example_env_def DNA_ALPHABET_def)
  have d: "calculateDeBruijnExtensionsSingleIndex example_env ''ACGT'' 1 ED_SENSE CHR ''N'' \<noteq>
     calculateDeBruijnExtensionsSingleIndex example_env2 ''ACGT'' 1 ED_SENSE CHR ''N''"
    by (simp add: example_env2_def example_env_def example_counts_def)
  from determinism [OF h] h d show ?thesis
    by (intro conjI)
qed

end
